theory Spec2Isabelle
  imports Main "HOL-Library.Sublist"
begin

section \<open>Data model of \<^verbatim>\<open>mod.ts\<close>\<close>

text \<open>
  \<^verbatim>\<open>export type EventPriority = "before" | "normal" | "after"\<close>
\<close>

datatype EventPriority = before | normal | after

text \<open>
  What a listener can hand back or throw has the TypeScript type \<^verbatim>\<open>unknown\<close>. The
  cases the dispatcher or the claims can tell apart: \<^verbatim>\<open>undefined\<close>, a value of the
  payload type, an instance of \<^verbatim>\<open>class Cancelled { constructor(readonly reason?: string) }\<close>,
  and any other value (an \<^verbatim>\<open>Error\<close> with its message, say). \<^verbatim>\<open>e instanceof Cancelled\<close>
  is \<open>isCancelled e\<close>.
\<close>

datatype 'v unknown =
    Undefined
  | Data 'v
  | Cancelled "string option"
  | Failure string

fun isCancelled :: "'v unknown \<Rightarrow> bool" where
  "isCancelled (Cancelled reason) = True"
| "isCancelled _ = False"

text \<open>
  A promise is either fulfilled with a value, rejected with a value, or it never
  settles. \<^verbatim>\<open>EventListener<V> = (x: V) => unknown | Promise<unknown>\<close>: one call of a
  listener returns a plain value, returns a promise, or throws.
\<close>

datatype 'v promise =
    Resolves "'v unknown"
  | Rejects "'v unknown"
  | NeverSettles

datatype 'v outcome =
    Returns "'v unknown"
  | ReturnsPromise "'v promise"
  | Throws "'v unknown"

text \<open>
  An event type is a property key of the objects in \<^verbatim>\<open>listeners\<close>, a string (a number
  used as a key is its decimal string).

  The closure \<^verbatim>\<open>() => delete this.listenersOf(type, priority)[i]\<close> that \<^verbatim>\<open>on\<close> returns
  is determined by the three variables it captures.
\<close>

datatype cleanup = Cleanup string EventPriority nat

text \<open>
  The functions stored in the registry. \<open>Fn n\<close> is the user's function object number
  \<open>n\<close>: two user functions with the same body are two numbers, and one function object
  registered twice is the same number twice. \<open>OnceWrapper handle listener\<close> is the arrow
  function \<^verbatim>\<open>(e) => { off(); listener(e) }\<close> that \<^verbatim>\<open>once\<close> creates, with the two
  variables it captures.
\<close>

datatype listener =
    Fn nat
  | OnceWrapper cleanup listener

text \<open>
  \<^verbatim>\<open>EventListeners<T> = { [K in keyof T]?: EventListener<T[K]>[] }\<close>: a bucket may be
  absent. A JavaScript array can have holes (\<^verbatim>\<open>delete a[i]\<close> leaves one and keeps the
  length), so a bucket is a list of optional listeners, \<open>None\<close> being a hole.

  The state is the emitter's field \<^verbatim>\<open>listeners\<close>, one \<^verbatim>\<open>EventListeners\<close> per priority,
  and \<open>world\<close>: everything else a listener body can read and write. The map of a
  priority holds the own properties of that object.
\<close>

type_synonym EventListeners = "string \<rightharpoonup> listener option list"

record 'w state =
  listeners :: "EventPriority \<Rightarrow> EventListeners"
  world :: 'w

text \<open>
  Each of the three objects is a plain \<^verbatim>\<open>{}\<close>, so besides its own properties a lookup
  \<^verbatim>\<open>this.listeners[priority][type]\<close> finds the members it inherits from
  \<^verbatim>\<open>Object.prototype\<close>. These are the names ECMAScript gives them. Each is a function,
  except \<^verbatim>\<open>__proto__\<close>, which reads as \<^verbatim>\<open>Object.prototype\<close> itself: all are truthy, none
  is an array, none is iterable and none has a \<^verbatim>\<open>push\<close>.
\<close>

definition Object_prototype :: "string list" where
  "Object_prototype =
     [''constructor'', ''hasOwnProperty'', ''isPrototypeOf'', ''propertyIsEnumerable'',
      ''toLocaleString'', ''toString'', ''valueOf'', ''__proto__'',
      ''__defineGetter__'', ''__defineSetter__'', ''__lookupGetter__'', ''__lookupSetter__'']"

text \<open>
  What \<^verbatim>\<open>listenersOf\<close> returns: a bucket (an array), or an inherited member. What is
  thrown by the emitter's own code, as opposed to a listener, is a \<^verbatim>\<open>TypeError\<close>.
\<close>

datatype looked_up = Array "listener option list" | Inherited

datatype error = TypeError string

fun isArray :: "looked_up \<Rightarrow> bool" where
  "isArray (Array ls) = True"
| "isArray Inherited = False"

text \<open>
  The field initialiser \<^verbatim>\<open>{ "before": {}, "normal": {}, "after": {} }\<close>.
\<close>

definition new_EventEmitter :: "'w \<Rightarrow> 'w state" where
  "new_EventEmitter w = \<lparr>listeners = (\<lambda>priority. Map.empty), world = w\<rparr>"

text \<open>
  The bodies of the user's functions: function \<open>n\<close>, called with a payload in a state,
  gives an outcome and a state. A body may do anything to the state, the registry
  included (it can call \<^verbatim>\<open>on\<close>, a cleanup function, \<^verbatim>\<open>emit\<close>); bodies are assumed to come
  back. For a body that returns a promise, the state after it is the state when the
  promise has settled, whatever ran in between.
\<close>

type_synonym ('v, 'w) bodies = "nat \<Rightarrow> 'v \<Rightarrow> 'w state \<Rightarrow> 'v outcome \<times> 'w state"

section \<open>Registry\<close>

definition set_bucket ::
  "string \<Rightarrow> EventPriority \<Rightarrow> listener option list \<Rightarrow> 'w state \<Rightarrow> 'w state" where
  "set_bucket type priority ls s =
     s\<lparr>listeners := (listeners s)(priority := (listeners s priority)(type \<mapsto> ls))\<rparr>"

text \<open>
  \<^verbatim>\<open>
  listenersOf(type, priority = "normal") {
    let listeners = this.listeners[priority][type]
    if (!listeners) this.listeners[priority][type] = []
    return this.listeners[priority][type]!;
  }
  \<close>
  An own property shadows an inherited one. An array is truthy even when empty, and so
  is every inherited member: a bucket is created only where the lookup finds nothing
  at all. The result is the live bucket, or the inherited member: the model returns
  the bucket's contents, and the state.
\<close>

definition listenersOf ::
  "string \<Rightarrow> EventPriority \<Rightarrow> 'w state \<Rightarrow> looked_up \<times> 'w state" where
  "listenersOf type priority s =
     (case listeners s priority type of
        Some ls \<Rightarrow> (Array ls, s)
      | None \<Rightarrow>
          (if type \<in> set Object_prototype then (Inherited, s)
           else (Array [], set_bucket type priority [] s)))"

text \<open>
  \<^verbatim>\<open>
  on([type, priority = "normal"], listener) {
    const i = this.listenersOf(type, priority).push(listener)
    return () => delete this.listenersOf(type, priority)[i]
  }
  \<close>
  \<^verbatim>\<open>Array.prototype.push\<close> appends at index \<^verbatim>\<open>length\<close> and returns the new length. An
  inherited member has no \<^verbatim>\<open>push\<close>, and calling it throws. \<^verbatim>\<open>on\<close> gives what it throws
  or what it returns, and the state.
\<close>

definition on ::
  "string \<times> EventPriority option \<Rightarrow> listener \<Rightarrow> 'w state \<Rightarrow> (error + cleanup) \<times> 'w state" where
  "on tp listener s =
     (let type = fst tp;
          priority = (case snd tp of None \<Rightarrow> normal | Some p \<Rightarrow> p);
          (found, s1) = listenersOf type priority s
      in (case found of
            Inherited \<Rightarrow> (Inl (TypeError ''this.listenersOf(...).push is not a function''), s1)
          | Array ls \<Rightarrow>
              (let i = length ls + 1
               in (Inr (Cleanup type priority i),
                   set_bucket type priority (ls @ [Some listener]) s1))))"

text \<open>
  \<^verbatim>\<open>delete a[i]\<close> on an array: an index below the length becomes a hole, the length
  stays; any other index has no property and nothing happens. It yields \<^verbatim>\<open>true\<close> and
  does not throw.
\<close>

definition delete_index :: "nat \<Rightarrow> 'a option list \<Rightarrow> 'a option list" where
  "delete_index i ls = (if i < length ls then ls[i := None] else ls)"

text \<open>
  Calling the cleanup function that \<^verbatim>\<open>on\<close> returned. An inherited member has no
  property named by a number, so the \<^verbatim>\<open>delete\<close> does nothing there.
\<close>

fun off :: "cleanup \<Rightarrow> 'w state \<Rightarrow> bool \<times> 'w state" where
  "off (Cleanup type priority i) s =
     (let (found, s1) = listenersOf type priority s
      in (case found of
            Inherited \<Rightarrow> (True, s1)
          | Array ls \<Rightarrow> (True, set_bucket type priority (delete_index i ls) s1)))"

text \<open>
  \<^verbatim>\<open>
  once([type, priority = "normal"], listener) {
    const off = this.on([type, priority], (e) => { off(); listener(e) })
    return off
  }
  \<close>
  The arrow function reads the variable \<^verbatim>\<open>off\<close> when it is called, by which time it
  holds what \<^verbatim>\<open>on\<close> returned: the cleanup for this type and priority with the index
  \<^verbatim>\<open>on\<close> computes, the length of the bucket plus one (lemma \<open>once_off\<close> below). When
  \<^verbatim>\<open>on\<close> throws, \<^verbatim>\<open>once\<close> throws, no arrow function is stored, and the handle written
  here for that case is never used.
\<close>

definition once ::
  "string \<times> EventPriority option \<Rightarrow> listener \<Rightarrow> 'w state \<Rightarrow> (error + cleanup) \<times> 'w state" where
  "once tp listener s =
     (let type = fst tp;
          priority = (case snd tp of None \<Rightarrow> normal | Some p \<Rightarrow> p);
          handle = (case fst (listenersOf type priority s) of
                      Array ls \<Rightarrow> Cleanup type priority (length ls + 1)
                    | Inherited \<Rightarrow> Cleanup type priority 0)
      in on (type, Some priority) (OnceWrapper handle listener) s)"

text \<open>
  Calling a stored function. The wrapper of \<^verbatim>\<open>once\<close> calls \<^verbatim>\<open>off()\<close>, then
  \<^verbatim>\<open>listener(e)\<close>, whose result it drops: it returns \<^verbatim>\<open>undefined\<close> unless the listener
  throws.
\<close>

fun call ::
  "('v, 'w) bodies \<Rightarrow> listener \<Rightarrow> 'v \<Rightarrow> 'w state \<Rightarrow> 'v outcome \<times> 'w state" where
  "call body (Fn n) x s = body n x s"
| "call body (OnceWrapper handle listener) e s =
     (let s1 = snd (off handle s);
          (r, s2) = call body listener e s1
      in (case r of Throws err \<Rightarrow> (Throws err, s2) | _ \<Rightarrow> (Returns Undefined, s2)))"

section \<open>Emission\<close>

text \<open>
  How the \<^verbatim>\<open>for\<close> loop inside the \<^verbatim>\<open>try\<close> block ends: it ran through, something was
  thrown, or (asynchronous emission only) an awaited promise never settles.
\<close>

datatype 'v loop_exit = Finished | Raised "'v unknown" | Hung

text \<open>
  One entry of the log of calls the dispatcher makes: the function, the argument it
  was given, and what the call did. The log is not in the source; the claims speak
  of which listeners are invoked and with what.
\<close>

type_synonym 'v invocation = "listener \<times> 'v \<times> 'v outcome"

text \<open>
  \<^verbatim>\<open>for (const listener of [...]) listener(data)\<close>. An element of the copied array
  that was a hole is \<^verbatim>\<open>undefined\<close>, and calling it throws a \<^verbatim>\<open>TypeError\<close>. What a
  listener returns is dropped.
\<close>

fun emitSync_loop ::
  "('v, 'w) bodies \<Rightarrow> listener option list \<Rightarrow> 'v \<Rightarrow> 'w state
     \<Rightarrow> 'v loop_exit \<times> 'v invocation list \<times> 'w state" where
  "emitSync_loop body [] data s = (Finished, [], s)"
| "emitSync_loop body (None # rest) data s =
     (Raised (Failure ''TypeError: listener is not a function''), [], s)"
| "emitSync_loop body (Some listener # rest) data s =
     (case call body listener data s of
        (Throws e, s1) \<Rightarrow> (Raised e, [(listener, data, Throws e)], s1)
      | (r, s1) \<Rightarrow>
          (let (ex, log, s2) = emitSync_loop body rest data s1
           in (ex, (listener, data, r) # log, s2)))"

text \<open>
  \<^verbatim>\<open>for (const listener of [...]) await listener(data)\<close>: a returned promise is
  awaited, its rejection is thrown at the \<^verbatim>\<open>await\<close>.
\<close>

fun await :: "'v outcome \<Rightarrow> 'v loop_exit" where
  "await (Returns v) = Finished"
| "await (ReturnsPromise (Resolves v)) = Finished"
| "await (ReturnsPromise (Rejects e)) = Raised e"
| "await (ReturnsPromise NeverSettles) = Hung"
| "await (Throws e) = Raised e"

fun emit_loop ::
  "('v, 'w) bodies \<Rightarrow> listener option list \<Rightarrow> 'v \<Rightarrow> 'w state
     \<Rightarrow> 'v loop_exit \<times> 'v invocation list \<times> 'w state" where
  "emit_loop body [] data s = (Finished, [], s)"
| "emit_loop body (None # rest) data s =
     (Raised (Failure ''TypeError: listener is not a function''), [], s)"
| "emit_loop body (Some listener # rest) data s =
     (case call body listener data s of (r, s1) \<Rightarrow>
        (case await r of
           Finished \<Rightarrow>
             (let (ex, log, s2) = emit_loop body rest data s1
              in (ex, (listener, data, r) # log, s2))
         | ex \<Rightarrow> (ex, [(listener, data, r)], s1)))"

text \<open>
  The array the loops run over:
  \<^verbatim>\<open>
  [ ...this.listenersOf(type, "before"),
    ...this.listenersOf(type, "normal"),
    ...this.listenersOf(type, "after") ]
  \<close>
  a fresh array, filled before the first listener is called. The elements of the
  literal are evaluated and spread one after the other; spreading an inherited member
  throws, since it is not iterable.
\<close>

definition snapshot ::
  "string \<Rightarrow> 'w state \<Rightarrow> (error + listener option list) \<times> 'w state" where
  "snapshot type s =
     (case listenersOf type before s of
        (Inherited, s1) \<Rightarrow> (Inl (TypeError ''this.listenersOf(...) is not iterable''), s1)
      | (Array b, s1) \<Rightarrow>
     (case listenersOf type normal s1 of
        (Inherited, s2) \<Rightarrow> (Inl (TypeError ''this.listenersOf(...) is not iterable''), s2)
      | (Array n, s2) \<Rightarrow>
     (case listenersOf type after s2 of
        (Inherited, s3) \<Rightarrow> (Inl (TypeError ''this.listenersOf(...) is not iterable''), s3)
      | (Array a, s3) \<Rightarrow> (Inr (b @ n @ a), s3))))"

text \<open>The value a \<^verbatim>\<open>catch\<close> clause receives for an error of the emitter's own code.\<close>

fun thrown :: "error \<Rightarrow> 'v unknown" where
  "thrown (TypeError message) = Failure (''TypeError: '' @ message)"

text \<open>
  \<^verbatim>\<open>
  emitSync(type, data) {
    try { for (...) listener(data) }
    catch (e: unknown) { if (e instanceof Cancelled) return e; throw e }
  }
  \<close>
  The result is \<open>Returns Undefined\<close> when the loop runs through, \<open>Returns e\<close> for a caught
  \<^verbatim>\<open>Cancelled\<close>, \<open>Throws e\<close> for anything else thrown. The array literal is inside the
  \<^verbatim>\<open>try\<close> block, so what it throws goes through the \<^verbatim>\<open>catch\<close> clause as well.
\<close>

definition emitSync ::
  "('v, 'w) bodies \<Rightarrow> string \<Rightarrow> 'v \<Rightarrow> 'w state
     \<Rightarrow> 'v outcome \<times> 'v invocation list \<times> 'w state" where
  "emitSync body type data s =
     (case snapshot type s of
        (Inl err, s1) \<Rightarrow>
          ((if isCancelled (thrown err :: 'v unknown) then Returns (thrown err)
            else Throws (thrown err)), [], s1)
      | (Inr ls, s1) \<Rightarrow>
          (let (ex, log, s2) = emitSync_loop body ls data s1
           in ((case ex of
                  Raised e \<Rightarrow> (if isCancelled e then Returns e else Throws e)
                | _ \<Rightarrow> Returns Undefined), log, s2)))"

text \<open>
  \<^verbatim>\<open>
  async emit(type, data): Promise<Cancelled | undefined> {
    try { for (...) await listener(data) }
    catch (e: unknown) { if (e instanceof Cancelled) return e; throw e }
  }
  \<close>
  The promise of \<^verbatim>\<open>emit\<close> is fulfilled with \<^verbatim>\<open>undefined\<close> or the \<^verbatim>\<open>Cancelled\<close>, rejected
  with anything else thrown, and never settles when an awaited promise never does.
\<close>

definition emit ::
  "('v, 'w) bodies \<Rightarrow> string \<Rightarrow> 'v \<Rightarrow> 'w state
     \<Rightarrow> 'v promise \<times> 'v invocation list \<times> 'w state" where
  "emit body type data s =
     (case snapshot type s of
        (Inl err, s1) \<Rightarrow>
          ((if isCancelled (thrown err :: 'v unknown) then Resolves (thrown err)
            else Rejects (thrown err)), [], s1)
      | (Inr ls, s1) \<Rightarrow>
          (let (ex, log, s2) = emit_loop body ls data s1
           in ((case ex of
                  Finished \<Rightarrow> Resolves Undefined
                | Raised e \<Rightarrow> (if isCancelled e then Resolves e else Rejects e)
                | Hung \<Rightarrow> NeverSettles), log, s2)))"

section \<open>Notions used to state the properties\<close>

text \<open>
  What follows is not in the source. \<open>contents\<close> is what a bucket holds (an absent
  bucket holds nothing), and \<open>tier\<close> is the default \<^verbatim>\<open>priority = "normal"\<close>.
  \<open>spreadable s type\<close> says that in the state \<open>s\<close> the three lookups for the type give
  arrays, so that the array literal of an emission can be built; it fails only for a
  type that names a member of \<^verbatim>\<open>Object.prototype\<close> (lemma \<open>spreadable_iff\<close>).
  \<open>ordered s type\<close> is the before, normal and after buckets of the state \<open>s\<close>, one after
  the other, and is empty where they cannot be spread: it is the array an emission
  called in \<open>s\<close> builds, if it builds one (lemma \<open>snapshot_ordered\<close>).
\<close>

definition contents :: "'w state \<Rightarrow> EventPriority \<Rightarrow> string \<Rightarrow> listener option list" where
  "contents s priority type = (case listeners s priority type of None \<Rightarrow> [] | Some ls \<Rightarrow> ls)"

definition tier :: "EventPriority option \<Rightarrow> EventPriority" where
  "tier p = (case p of None \<Rightarrow> normal | Some q \<Rightarrow> q)"

definition spreadable :: "'w state \<Rightarrow> string \<Rightarrow> bool" where
  "spreadable s type =
     (isArray (fst (listenersOf type before s)) \<and>
      isArray (fst (listenersOf type normal s)) \<and>
      isArray (fst (listenersOf type after s)))"

definition ordered :: "'w state \<Rightarrow> string \<Rightarrow> listener option list" where
  "ordered s type =
     (if spreadable s type
      then contents s before type @ contents s normal type @ contents s after type
      else [])"

abbreviation NotIterable :: "'v unknown" where
  "NotIterable \<equiv> Failure ''TypeError: this.listenersOf(...) is not iterable''"

text \<open>The three parts of what an emission gives, and of an entry of its log.\<close>

abbreviation result ::
  "'r \<times> 'v invocation list \<times> 'w state \<Rightarrow> 'r" where
  "result x \<equiv> fst x"

abbreviation invoked ::
  "'r \<times> 'v invocation list \<times> 'w state \<Rightarrow> 'v invocation list" where
  "invoked x \<equiv> fst (snd x)"

abbreviation final ::
  "'r \<times> 'v invocation list \<times> 'w state \<Rightarrow> 'w state" where
  "final x \<equiv> snd (snd x)"

abbreviation listener_of :: "'v invocation \<Rightarrow> listener" where
  "listener_of c \<equiv> fst c"

abbreviation payload_of :: "'v invocation \<Rightarrow> 'v" where
  "payload_of c \<equiv> fst (snd c)"

abbreviation outcome_of :: "'v invocation \<Rightarrow> 'v outcome" where
  "outcome_of c \<equiv> snd (snd c)"

abbreviation TypeErr :: "'v unknown" where
  "TypeErr \<equiv> Failure ''TypeError: listener is not a function''"

text \<open>
  The two loops differ only in what they do with the outcome of a call: the
  synchronous one stops on a throw and on nothing else (\<open>nowait\<close>), the asynchronous one
  awaits. \<open>run\<close> is the loop with that step as a parameter; \<open>emitSync_loop\<close> is
  \<open>run nowait\<close> and \<open>emit_loop\<close> is \<open>run await\<close> (lemmas \<open>emitSync_loop_run\<close> and
  \<open>emit_loop_run\<close>), so that each fact about the loops is proved once.
\<close>

fun nowait :: "'v outcome \<Rightarrow> 'v loop_exit" where
  "nowait (Throws e) = Raised e"
| "nowait r = Finished"

fun run ::
  "('v outcome \<Rightarrow> 'v loop_exit) \<Rightarrow> ('v, 'w) bodies \<Rightarrow> listener option list \<Rightarrow> 'v
     \<Rightarrow> 'w state \<Rightarrow> 'v loop_exit \<times> 'v invocation list \<times> 'w state" where
  "run w body [] data s = (Finished, [], s)"
| "run w body (None # rest) data s = (Raised TypeErr, [], s)"
| "run w body (Some listener # rest) data s =
     (case call body listener data s of (r, s1) \<Rightarrow>
        (case w r of
           Finished \<Rightarrow>
             (let (ex, log, s2) = run w body rest data s1
              in (ex, (listener, data, r) # log, s2))
         | ex \<Rightarrow> (ex, [(listener, data, r)], s1)))"

text \<open>
  A sequence of calls of \<^verbatim>\<open>on\<close>, each in the state the one before left (a call that
  throws leaves the state as it was), and the listeners the sequence registers on a new
  emitter for one type, tier by tier, each tier in the order of the calls: none for a
  type that names a member of \<^verbatim>\<open>Object.prototype\<close>, where every such call throws (lemma
  \<open>contents_register_all\<close>).
\<close>

fun register_all ::
  "(string \<times> EventPriority option \<times> listener) list \<Rightarrow> 'w state \<Rightarrow> 'w state" where
  "register_all [] s = s"
| "register_all ((type, priority, listener) # regs) s =
     register_all regs (snd (on (type, priority) listener s))"

definition registered ::
  "(string \<times> EventPriority option \<times> listener) list \<Rightarrow> string \<Rightarrow> EventPriority \<Rightarrow> listener list" where
  "registered regs type priority =
     (if type \<in> set Object_prototype then []
      else map (snd \<circ> snd)
             (filter (\<lambda>reg. fst reg = type \<and> tier (fst (snd reg)) = priority) regs))"

definition expected ::
  "(string \<times> EventPriority option \<times> listener) list \<Rightarrow> string \<Rightarrow> listener list" where
  "expected regs type =
     registered regs type before @ registered regs type normal @ registered regs type after"

section \<open>Example listeners and emitters\<close>

text \<open>
  Listener bodies over a world that counts calls. \<open>counting\<close>: every function counts
  and returns \<^verbatim>\<open>undefined\<close>. \<open>replacing\<close>: function 0 returns \<^verbatim>\<open>[x, 0, z]\<close>, the
  README's replacement payload. Function 1 returns a \<^verbatim>\<open>Cancelled\<close>
  (\<open>cancelling_by_return\<close>), throws one (\<open>cancelling_by_throw\<close>), returns a promise
  rejected with one (\<open>rejecting\<close>), throws an error (\<open>failing\<close>), or returns a promise
  rejected with an error (\<open>rejecting_error\<close>). In \<open>removing\<close> function 0 calls two cleanup
  functions, the one \<^verbatim>\<open>on\<close> returns for the second listener of a bucket and the one it
  returns for the first; in \<open>registering\<close> it calls \<^verbatim>\<open>on\<close>; in \<open>peeking\<close> it calls
  \<^verbatim>\<open>listenersOf\<close> for another type, and function 1 throws an error.
\<close>

definition counting :: "(int, nat) bodies" where
  "counting n x s = (Returns Undefined, s\<lparr>world := Suc (world s)\<rparr>)"

definition replacing :: "(int \<times> int \<times> int, nat) bodies" where
  "replacing n x s =
     (if n = 0 then (Returns (Data (fst x, 0, snd (snd x))), s) else (Returns Undefined, s))"

definition cancelling_by_return :: "(int, nat) bodies" where
  "cancelling_by_return n x s =
     (if n = 1 then (Returns (Cancelled (Some ''stop'')), s) else (Returns Undefined, s))"

definition cancelling_by_throw :: "(int, nat) bodies" where
  "cancelling_by_throw n x s =
     (if n = 1 then (Throws (Cancelled (Some ''stop'')), s) else (Returns Undefined, s))"

definition failing :: "(int, nat) bodies" where
  "failing n x s =
     (if n = 1 then (Throws (Failure ''boom''), s) else (Returns Undefined, s))"

definition rejecting :: "(int, nat) bodies" where
  "rejecting n x s =
     (if n = 1 then (ReturnsPromise (Rejects (Cancelled (Some ''stop''))), s)
      else (Returns Undefined, s))"

definition rejecting_error :: "(int, nat) bodies" where
  "rejecting_error n x s =
     (if n = 1 then (ReturnsPromise (Rejects (Failure ''boom'')), s)
      else (Returns Undefined, s))"

definition removing :: "(int, nat) bodies" where
  "removing n x s =
     (if n = 0
      then (Returns Undefined,
            snd (off (Cleanup ''move'' normal 1) (snd (off (Cleanup ''move'' normal 2) s))))
      else (Returns Undefined, s))"

definition peeking :: "(int, nat) bodies" where
  "peeking n x s =
     (if n = 0 then (Returns Undefined, snd (listenersOf ''other'' normal s))
      else (Throws (Failure ''boom''), s))"

definition registering :: "(int, nat) bodies" where
  "registering n x s =
     (if n = 0 then (Returns Undefined, snd (on (''move'', Some before) (Fn 9) s))
      else (Returns Undefined, s))"

text \<open>
  \<^verbatim>\<open>on(["move"], f0); on(["move"], f1)\<close> on a new emitter; four listeners registered
  out of tier order; one listener registered with \<^verbatim>\<open>once\<close>.
\<close>

definition two_listeners :: "nat state" where
  "two_listeners =
     register_all [(''move'', None, Fn 0), (''move'', None, Fn 1)] (new_EventEmitter 0)"

definition four_listeners :: "nat state" where
  "four_listeners =
     register_all [(''woof'', Some after, Fn 3), (''woof'', None, Fn 1),
                   (''woof'', Some before, Fn 0), (''woof'', Some normal, Fn 2)]
       (new_EventEmitter 0)"

definition once_listener :: "nat state" where
  "once_listener = snd (once (''woof'', None) (Fn 0) (new_EventEmitter 0))"

lemmas ev = on_def once_def listenersOf_def set_bucket_def new_EventEmitter_def snapshot_def
  emitSync_def emit_def delete_index_def Let_def ordered_def spreadable_def contents_def tier_def
  registered_def expected_def Object_prototype_def
  counting_def replacing_def cancelling_by_return_def cancelling_by_throw_def failing_def
  rejecting_def rejecting_error_def removing_def peeking_def registering_def
  two_listeners_def four_listeners_def once_listener_def

section \<open>The registry\<close>



lemma world_listenersOf: "world (snd (listenersOf t p s)) = world s"
  by (simp add: listenersOf_def set_bucket_def split: option.splits)

lemma listenersOf_Inherited: "fst (listenersOf t p s) = Inherited \<Longrightarrow> snd (listenersOf t p s) = s"
  by (simp add: listenersOf_def split: option.splits if_splits)

lemma isArray_after_listenersOf:
  "isArray (fst (listenersOf t q (snd (listenersOf t p s)))) = isArray (fst (listenersOf t q s))"
  by (auto simp: listenersOf_def set_bucket_def split: option.splits)


lemma fst_snapshot:
  "fst (snapshot t s) =
     (if spreadable s t then Inr (ordered s t)
      else Inl (TypeError ''this.listenersOf(...) is not iterable''))"
  by (auto simp: snapshot_def spreadable_def ordered_def listenersOf_def contents_def
        set_bucket_def split: option.splits)

lemma snapshot_not_spreadable: "\<not> spreadable s t \<Longrightarrow> snd (snapshot t s) = s"
  by (auto simp: snapshot_def spreadable_def listenersOf_def set_bucket_def
        split: option.splits if_splits)



lemma on_throws_iff:
  "(\<exists>e. fst (on (t, p) f s) = Inl e) \<longleftrightarrow> \<not> isArray (fst (listenersOf t (tier p) s))"
  by (auto simp: on_def listenersOf_def tier_def Let_def split: option.splits)

lemma on_throws_state: "fst (on (t, p) f s) = Inl e \<Longrightarrow> snd (on (t, p) f s) = s"
  by (auto simp: on_def listenersOf_def tier_def Let_def split: option.splits if_splits)






lemma once_off:
  "fst (once tp f s) = Inr h \<Longrightarrow>
     once tp f s = on (fst tp, Some (tier (snd tp))) (OnceWrapper h f) s"
  by (auto simp: once_def on_def tier_def Let_def split: prod.splits looked_up.splits)

lemma off_twice: "snd (off h (snd (off h s))) = snd (off h s)"
proof (cases h)
  case (Cleanup t p i)
  have "listeners (snd (off h (snd (off h s)))) = listeners (snd (off h s))"
    by (auto simp: Cleanup listenersOf_def set_bucket_def delete_index_def
          split: option.splits intro!: ext)
  moreover have "world (snd (off h (snd (off h s)))) = world (snd (off h s))"
    by (auto simp: Cleanup listenersOf_def set_bucket_def split: option.splits)
  moreover have "state.more (snd (off h (snd (off h s)))) = state.more (snd (off h s))"
    by (auto simp: Cleanup listenersOf_def set_bucket_def split: option.splits)
  ultimately show ?thesis by simp
qed

lemma on_returns:
  assumes "fst (on (t, p) f s) = Inr h"
  obtains ls where "fst (listenersOf t (tier p) s) = Array ls"
    and "h = Cleanup t (tier p) (Suc (length ls))"
    and "snd (on (t, p) f s) =
           set_bucket t (tier p) (ls @ [Some f]) (snd (listenersOf t (tier p) s))"
proof (cases "fst (listenersOf t (tier p) s)")
  case (Array ls)
  then show ?thesis using assms that [of ls]
    by (simp add: on_def tier_def Let_def split: prod.splits)
next
  case Inherited
  then show ?thesis using assms
    by (simp add: on_def tier_def Let_def split: prod.splits)
qed

lemma own_handle_keeps_listener:
  assumes "fst (on tp f s) = Inr h"
  shows "contents (snd (off h (snd (on tp f s)))) q u = contents (snd (on tp f s)) q u"
proof -
  obtain t p where tp: "tp = (t, p)" by (cases tp)
  obtain ls where h: "h = Cleanup t (tier p) (Suc (length ls))"
    and s2: "snd (on (t, p) f s) =
               set_bucket t (tier p) (ls @ [Some f]) (snd (listenersOf t (tier p) s))"
    using on_returns [of t p f s h] assms tp by blast
  show ?thesis
    by (simp add: tp h s2 listenersOf_def set_bucket_def delete_index_def contents_def)
qed

section \<open>The loops\<close>

lemma emit_loop_run: "emit_loop body ls data s = run await body ls data s"
  by (induction body ls data s rule: emit_loop.induct)
     (simp_all split: prod.splits loop_exit.splits)

lemma emitSync_loop_run: "emitSync_loop body ls data s = run nowait body ls data s"
proof (induction ls arbitrary: s)
  case Nil
  show ?case by simp
next
  case (Cons a ls)
  show ?case
  proof (cases a)
    case None
    then show ?thesis by simp
  next
    case (Some f)
    obtain r s1 where c: "call body f data s = (r, s1)" by (cases "call body f data s")
    show ?thesis using Some c Cons.IH [of s1]
      by (cases r) (simp_all split: prod.splits)
  qed
qed

lemma run_Some:
  "call body f d s = (r, s1) \<Longrightarrow> w r = Finished \<Longrightarrow> run w body rest d s1 = (ex, log, s2) \<Longrightarrow>
     run w body (Some f # rest) d s = (ex, (f, d, r) # log, s2)"
  by simp

lemma run_Some_stop:
  "call body f d s = (r, s1) \<Longrightarrow> w r \<noteq> Finished \<Longrightarrow>
     run w body (Some f # rest) d s = (w r, [(f, d, r)], s1)"
  by (cases "w r") simp_all

lemma run_cases:
  obtains (Nil) "ls = []" "run w body ls d s = (Finished, [], s)"
  | (Hole) rest where "ls = None # rest" "run w body ls d s = (Raised TypeErr, [], s)"
  | (Stop) f rest r s1 where "ls = Some f # rest" "call body f d s = (r, s1)" "w r \<noteq> Finished"
      "run w body ls d s = (w r, [(f, d, r)], s1)"
  | (Go) f rest r s1 ex log s2 where "ls = Some f # rest" "call body f d s = (r, s1)" "w r = Finished"
      "run w body rest d s1 = (ex, log, s2)" "run w body ls d s = (ex, (f, d, r) # log, s2)"
proof (cases ls)
  case Nil
  then show ?thesis using that(1) by simp
next
  case (Cons a rest)
  show ?thesis
  proof (cases a)
    case None
    then show ?thesis using Cons that(2) by simp
  next
    case (Some f)
    obtain r s1 where c: "call body f d s = (r, s1)" by (cases "call body f d s")
    show ?thesis
    proof (cases "w r = Finished")
      case True
      obtain ex log s2 where r: "run w body rest d s1 = (ex, log, s2)"
        by (cases "run w body rest d s1")
      show ?thesis
        using that(4) [OF _ c True r] run_Some [of body f d s r s1 w rest ex log s2, OF c True r] Cons Some
        by simp
    next
      case False
      show ?thesis
        using that(3) [OF _ c False] run_Some_stop [of body f d s r s1 w rest, OF c False] Cons Some
        by simp
    qed
  qed
qed

lemma run_prefix:
  "run w body ls d s = (ex, log, s') \<Longrightarrow> prefix (map (Some \<circ> fst) log) ls"
proof (induction ls arbitrary: s ex log s')
  case Nil
  then show ?case by simp
next
  case (Cons a ls)
  show ?case
  proof (cases rule: run_cases [of "a # ls" w body d s])
    case Nil
    then show ?thesis by simp
  next
    case (Hole rest)
    then show ?thesis using Cons.prems by simp
  next
    case (Stop f rest r s1)
    then show ?thesis using Cons.prems by auto
  next
    case (Go f rest r s1 ex1 log1 s2)
    then show ?thesis using Cons.prems Cons.IH [of s1 ex1 log1 s2] by auto
  qed
qed

lemma run_payload:
  "run w body ls d s = (ex, log, s') \<Longrightarrow> c \<in> set log \<Longrightarrow> fst (snd c) = d"
proof (induction ls arbitrary: s ex log s')
  case Nil
  then show ?case by simp
next
  case (Cons a ls)
  show ?case
  proof (cases rule: run_cases [of "a # ls" w body d s])
    case Nil
    then show ?thesis by simp
  next
    case (Hole rest)
    then show ?thesis using Cons.prems by simp
  next
    case (Stop f rest r s1)
    then show ?thesis using Cons.prems by auto
  next
    case (Go f rest r s1 ex1 log1 s2)
    then show ?thesis using Cons.prems Cons.IH [of s1 ex1 log1 s2] by auto
  qed
qed

lemma run_stop:
  "run w body ls d s = (ex, log, s') \<Longrightarrow> c \<in> set log \<Longrightarrow> w (snd (snd c)) \<noteq> Finished \<Longrightarrow>
     ex = w (snd (snd c)) \<and> last log = c"
proof (induction ls arbitrary: s ex log s')
  case Nil
  then show ?case by simp
next
  case (Cons a ls)
  show ?case
  proof (cases rule: run_cases [of "a # ls" w body d s])
    case Nil
    then show ?thesis by simp
  next
    case (Hole rest)
    then show ?thesis using Cons.prems by simp
  next
    case (Stop f rest r s1)
    then show ?thesis using Cons.prems by auto
  next
    case (Go f rest r s1 ex1 log1 s2)
    then have "c \<in> set log1" using Cons.prems by auto
    then show ?thesis using Go Cons.prems Cons.IH [of s1 ex1 log1 s2] by auto
  qed
qed

lemma run_Finished:
  "run w body ls d s = (Finished, log, s') \<Longrightarrow>
     map (Some \<circ> fst) log = ls \<and> (\<forall>c\<in>set log. w (snd (snd c)) = Finished)"
proof (induction ls arbitrary: s log s')
  case Nil
  then show ?case by simp
next
  case (Cons a ls)
  show ?case
  proof (cases rule: run_cases [of "a # ls" w body d s])
    case Nil
    then show ?thesis by simp
  next
    case (Hole rest)
    then show ?thesis using Cons.prems by simp
  next
    case (Stop f rest r s1)
    then show ?thesis using Cons.prems by auto
  next
    case (Go f rest r s1 ex1 log1 s2)
    then show ?thesis using Cons.prems Cons.IH [of s1 log1 s2] by auto
  qed
qed

lemma run_not_Finished:
  "run w body ls d s = (ex, log, s') \<Longrightarrow> ex \<noteq> Finished \<Longrightarrow>
     (log \<noteq> [] \<and> w (snd (snd (last log))) = ex) \<or>
     (ex = Raised TypeErr \<and> length log < length ls \<and> ls ! length log = None)"
proof (induction ls arbitrary: s ex log s')
  case Nil
  then show ?case by simp
next
  case (Cons a ls)
  show ?case
  proof (cases rule: run_cases [of "a # ls" w body d s])
    case Nil
    then show ?thesis by simp
  next
    case (Hole rest)
    then show ?thesis using Cons.prems by auto
  next
    case (Stop f rest r s1)
    then show ?thesis using Cons.prems by auto
  next
    case (Go f rest r s1 ex1 log1 s2)
    then show ?thesis using Cons.prems Cons.IH [of s1 ex1 log1 s2] by auto
  qed
qed

lemma nowait_Raised: "nowait r = Raised e \<longleftrightarrow> r = Throws e"
  by (cases r) auto

lemma nowait_Finished: "nowait r = Finished \<longleftrightarrow> (\<forall>e. r \<noteq> Throws e)"
  by (cases r) auto

lemma nowait_not_Hung: "nowait r \<noteq> Hung"
  by (cases r) auto

lemma run_complete:
  assumes r: "run w body ls d s = (ex, log, s')"
    and holes: "None \<notin> set ls"
    and ok: "\<forall>c\<in>set log. w (snd (snd c)) = Finished"
  shows "ex = Finished \<and> map (Some \<circ> fst) log = ls"
proof -
  have "ex = Finished"
  proof (rule ccontr)
    assume n: "ex \<noteq> Finished"
    from run_not_Finished [OF r n] show False
    proof
      assume "log \<noteq> [] \<and> w (snd (snd (last log))) = ex"
      then show False using ok n last_in_set [of log] by auto
    next
      assume "ex = Raised TypeErr \<and> length log < length ls \<and> ls ! length log = None"
      then show False using holes nth_mem [of "length log" ls] by auto
    qed
  qed
  then show ?thesis using run_Finished [of w body ls d s log s'] r by simp
qed



lemma emitSync_Raised:
  assumes r: "run nowait body ls d s = (Raised e, log, s')" and c: "isCancelled e"
  shows "\<exists>f. (f, d, Throws e) \<in> set log"
proof -
  have "e \<noteq> TypeErr" using c by auto
  then have l: "log \<noteq> [] \<and> nowait (snd (snd (last log))) = Raised e"
    using run_not_Finished [OF r] by auto
  then have th: "snd (snd (last log)) = Throws e" by (simp add: nowait_Raised)
  have "fst (snd (last log)) = d" using run_payload [OF r, of "last log"] l by simp
  then have "last log = (fst (last log), d, Throws e)" using th by (metis prod.collapse)
  then show ?thesis using l last_in_set [of log] by metis
qed

lemma emit_Raised:
  assumes r: "run await body ls d s = (Raised e, log, s')" and c: "isCancelled e"
  shows "\<exists>f r. (f, d, r) \<in> set log \<and> await r = Raised e"
proof -
  have "e \<noteq> TypeErr" using c by auto
  then have l: "log \<noteq> [] \<and> await (snd (snd (last log))) = Raised e"
    using run_not_Finished [OF r] by auto
  have "fst (snd (last log)) = d" using run_payload [OF r, of "last log"] l by simp
  then have "last log = (fst (last log), d, snd (snd (last log)))" by (metis prod.collapse)
  then show ?thesis using l last_in_set [of log] by metis
qed

section \<open>The emissions\<close>

lemma snapshot_ordered: "spreadable s t \<Longrightarrow> fst (snapshot t s) = Inr (ordered s t)"
  by (simp add: fst_snapshot)

lemma emission_not_spreadable:
  assumes "\<not> spreadable s t"
  shows "emitSync body t d s = (Throws NotIterable, [], s)"
    and "emit body t d s = (Rejects NotIterable, [], s)"
    and "ordered s t = []"
proof -
  have "snapshot t s = (Inl (TypeError ''this.listenersOf(...) is not iterable''), s)"
    using assms fst_snapshot [of t s] snapshot_not_spreadable [of s t]
    by (simp add: prod_eq_iff)
  then show "emitSync body t d s = (Throws NotIterable, [], s)"
    and "emit body t d s = (Rejects NotIterable, [], s)"
    by (simp_all add: emitSync_def emit_def)
  show "ordered s t = []" using assms by (simp add: ordered_def)
qed

lemma emitSync_run:
  assumes "spreadable s t"
  obtains ex log s' where
    "run nowait body (ordered s t) d (snd (snapshot t s)) = (ex, log, s')"
    "emitSync body t d s =
       ((case ex of Raised e \<Rightarrow> (if isCancelled e then Returns e else Throws e)
         | _ \<Rightarrow> Returns Undefined), log, s')"
proof -
  obtain s1 where sn: "snapshot t s = (Inr (ordered s t), s1)"
    using snapshot_ordered [OF assms] by (cases "snapshot t s") simp
  obtain ex log s' where r: "run nowait body (ordered s t) d s1 = (ex, log, s')"
    by (cases "run nowait body (ordered s t) d s1")
  have "emitSync body t d s =
       ((case ex of Raised e \<Rightarrow> (if isCancelled e then Returns e else Throws e)
         | _ \<Rightarrow> Returns Undefined), log, s')"
    using r by (simp add: emitSync_def sn emitSync_loop_run)
  then show ?thesis using that [of ex log s'] r sn by simp
qed

lemma emit_run:
  assumes "spreadable s t"
  obtains ex log s' where
    "run await body (ordered s t) d (snd (snapshot t s)) = (ex, log, s')"
    "emit body t d s =
       ((case ex of Finished \<Rightarrow> Resolves Undefined
         | Raised e \<Rightarrow> (if isCancelled e then Resolves e else Rejects e)
         | Hung \<Rightarrow> NeverSettles), log, s')"
proof -
  obtain s1 where sn: "snapshot t s = (Inr (ordered s t), s1)"
    using snapshot_ordered [OF assms] by (cases "snapshot t s") simp
  obtain ex log s' where r: "run await body (ordered s t) d s1 = (ex, log, s')"
    by (cases "run await body (ordered s t) d s1")
  have "emit body t d s =
       ((case ex of Finished \<Rightarrow> Resolves Undefined
         | Raised e \<Rightarrow> (if isCancelled e then Resolves e else Rejects e)
         | Hung \<Rightarrow> NeverSettles), log, s')"
    using r by (simp add: emit_def sn emit_loop_run)
  then show ?thesis using that [of ex log s'] r sn by simp
qed

lemma prefix_take: "prefix xs ys \<Longrightarrow> xs = take (length xs) ys"
  by (auto simp: prefix_def)


text \<open>What holds of every emission, whether or not the array can be built.\<close>

lemma emitSync_payload:
  "c \<in> set (invoked (emitSync body t d s)) \<Longrightarrow> payload_of c = d"
proof (cases "spreadable s t")
  case False
  then show "c \<in> set (invoked (emitSync body t d s)) \<Longrightarrow> payload_of c = d"
    by (simp add: emission_not_spreadable)
next
  case True
  assume c: "c \<in> set (invoked (emitSync body t d s))"
  from True obtain ex log s' where
    r: "run nowait body (ordered s t) d (snd (snapshot t s)) = (ex, log, s')" and
    e: "emitSync body t d s =
       ((case ex of Raised e \<Rightarrow> (if isCancelled e then Returns e else Throws e)
         | _ \<Rightarrow> Returns Undefined), log, s')"
    by (rule emitSync_run)
  show "payload_of c = d" using run_payload [OF r, of c] c e by simp
qed

lemma emit_payload:
  "c \<in> set (invoked (emit body t d s)) \<Longrightarrow> payload_of c = d"
proof (cases "spreadable s t")
  case False
  then show "c \<in> set (invoked (emit body t d s)) \<Longrightarrow> payload_of c = d"
    by (simp add: emission_not_spreadable)
next
  case True
  assume c: "c \<in> set (invoked (emit body t d s))"
  from True obtain ex log s' where
    r: "run await body (ordered s t) d (snd (snapshot t s)) = (ex, log, s')" and
    e: "emit body t d s =
       ((case ex of Finished \<Rightarrow> Resolves Undefined
         | Raised e \<Rightarrow> (if isCancelled e then Resolves e else Rejects e)
         | Hung \<Rightarrow> NeverSettles), log, s')"
    by (rule emit_run)
  show "payload_of c = d" using run_payload [OF r, of c] c e by simp
qed

lemma emitSync_stop:
  assumes "(f, x, Throws e) \<in> set (invoked (emitSync body t d s))"
  shows "result (emitSync body t d s) = (if isCancelled e then Returns e else Throws e)"
    and "last (invoked (emitSync body t d s)) = (f, x, Throws e)"
proof -
  have sp: "spreadable s t"
  proof (rule ccontr)
    assume "\<not> spreadable s t"
    then show False using assms by (simp add: emission_not_spreadable)
  qed
  then obtain ex log s' where
    r: "run nowait body (ordered s t) d (snd (snapshot t s)) = (ex, log, s')" and
    e: "emitSync body t d s =
       ((case ex of Raised e \<Rightarrow> (if isCancelled e then Returns e else Throws e)
         | _ \<Rightarrow> Returns Undefined), log, s')"
    by (rule emitSync_run)
  have "(f, x, Throws e) \<in> set log" using assms e by simp
  then have "ex = Raised e \<and> last log = (f, x, Throws e)"
    using run_stop [OF r, of "(f, x, Throws e)"] by simp
  then show "result (emitSync body t d s) = (if isCancelled e then Returns e else Throws e)"
    and "last (invoked (emitSync body t d s)) = (f, x, Throws e)"
    using e by simp_all
qed

lemma emit_stop:
  assumes "(f, x, r) \<in> set (invoked (emit body t d s))" and "await r = Raised e"
  shows "result (emit body t d s) = (if isCancelled e then Resolves e else Rejects e)"
    and "last (invoked (emit body t d s)) = (f, x, r)"
proof -
  have sp: "spreadable s t"
  proof (rule ccontr)
    assume "\<not> spreadable s t"
    then show False using assms by (simp add: emission_not_spreadable)
  qed
  then obtain ex log s' where
    r: "run await body (ordered s t) d (snd (snapshot t s)) = (ex, log, s')" and
    e: "emit body t d s =
       ((case ex of Finished \<Rightarrow> Resolves Undefined
         | Raised e \<Rightarrow> (if isCancelled e then Resolves e else Rejects e)
         | Hung \<Rightarrow> NeverSettles), log, s')"
    by (rule emit_run)
  have "(f, x, r) \<in> set log" using assms e by simp
  then have "ex = Raised e \<and> last log = (f, x, r)"
    using run_stop [OF r, of "(f, x, r)"] assms(2) by simp
  then show "result (emit body t d s) = (if isCancelled e then Resolves e else Rejects e)"
    and "last (invoked (emit body t d s)) = (f, x, r)"
    using e by simp_all
qed

lemma emitSync_Cancelled:
  assumes "result (emitSync body t d s) = Returns (Cancelled reason)"
  shows "\<exists>f. (f, d, Throws (Cancelled reason)) \<in> set (invoked (emitSync body t d s))"
proof -
  have sp: "spreadable s t"
  proof (rule ccontr)
    assume "\<not> spreadable s t"
    then show False using assms by (simp add: emission_not_spreadable)
  qed
  then obtain ex log s' where
    r: "run nowait body (ordered s t) d (snd (snapshot t s)) = (ex, log, s')" and
    e: "emitSync body t d s =
       ((case ex of Raised e \<Rightarrow> (if isCancelled e then Returns e else Throws e)
         | _ \<Rightarrow> Returns Undefined), log, s')"
    by (rule emitSync_run)
  have "ex = Raised (Cancelled reason)"
    using assms e by (auto split: loop_exit.splits if_splits)
  then show ?thesis
    using emitSync_Raised [of body "ordered s t" d "snd (snapshot t s)" "Cancelled reason" log s'] r e
    by simp
qed

lemma emit_Cancelled:
  assumes "result (emit body t d s) = Resolves (Cancelled reason)"
  shows "\<exists>f r. (f, d, r) \<in> set (invoked (emit body t d s)) \<and> await r = Raised (Cancelled reason)"
proof -
  have sp: "spreadable s t"
  proof (rule ccontr)
    assume "\<not> spreadable s t"
    then show False using assms by (simp add: emission_not_spreadable)
  qed
  then obtain ex log s' where
    r: "run await body (ordered s t) d (snd (snapshot t s)) = (ex, log, s')" and
    e: "emit body t d s =
       ((case ex of Finished \<Rightarrow> Resolves Undefined
         | Raised e \<Rightarrow> (if isCancelled e then Resolves e else Rejects e)
         | Hung \<Rightarrow> NeverSettles), log, s')"
    by (rule emit_run)
  have "ex = Raised (Cancelled reason)"
    using assms e by (auto split: loop_exit.splits if_splits)
  then show ?thesis
    using emit_Raised [of body "ordered s t" d "snd (snapshot t s)" "Cancelled reason" log s'] r e
    by simp
qed

lemma emitSync_no_payload: "result (emitSync body t d s) \<noteq> Returns (Data x)"
proof (cases "spreadable s t")
  case False
  then show ?thesis by (simp add: emission_not_spreadable)
next
  case True
  then obtain ex log s' where
    e: "emitSync body t d s =
       ((case ex of Raised e \<Rightarrow> (if isCancelled e then Returns e else Throws e)
         | _ \<Rightarrow> Returns Undefined), log, s')"
    by (rule emitSync_run)
  show ?thesis using e by (auto split: loop_exit.splits if_splits)
qed

lemma emit_no_payload: "result (emit body t d s) \<noteq> Resolves (Data x)"
proof (cases "spreadable s t")
  case False
  then show ?thesis by (simp add: emission_not_spreadable)
next
  case True
  then obtain ex log s' where
    e: "emit body t d s =
       ((case ex of Finished \<Rightarrow> Resolves Undefined
         | Raised e \<Rightarrow> (if isCancelled e then Resolves e else Rejects e)
         | Hung \<Rightarrow> NeverSettles), log, s')"
    by (rule emit_run)
  show ?thesis using e by (auto split: loop_exit.splits if_splits)
qed

lemma emitSync_order:
  "map (Some \<circ> fst) (invoked (emitSync body t d s)) =
     take (length (invoked (emitSync body t d s))) (ordered s t)"
proof (cases "spreadable s t")
  case False
  then show ?thesis by (simp add: emission_not_spreadable)
next
  case True
  then obtain ex log s' where
    r: "run nowait body (ordered s t) d (snd (snapshot t s)) = (ex, log, s')" and
    e: "emitSync body t d s =
       ((case ex of Raised e \<Rightarrow> (if isCancelled e then Returns e else Throws e)
         | _ \<Rightarrow> Returns Undefined), log, s')"
    by (rule emitSync_run)
  show ?thesis using prefix_take [OF run_prefix [OF r]] e by simp
qed

lemma emit_order:
  "map (Some \<circ> fst) (invoked (emit body t d s)) =
     take (length (invoked (emit body t d s))) (ordered s t)"
proof (cases "spreadable s t")
  case False
  then show ?thesis by (simp add: emission_not_spreadable)
next
  case True
  then obtain ex log s' where
    r: "run await body (ordered s t) d (snd (snapshot t s)) = (ex, log, s')" and
    e: "emit body t d s =
       ((case ex of Finished \<Rightarrow> Resolves Undefined
         | Raised e \<Rightarrow> (if isCancelled e then Resolves e else Rejects e)
         | Hung \<Rightarrow> NeverSettles), log, s')"
    by (rule emit_run)
  show ?thesis using prefix_take [OF run_prefix [OF r]] e by simp
qed

lemma emitSync_complete:
  assumes "None \<notin> set (ordered s t)"
    and "\<forall>c\<in>set (invoked (emitSync body t d s)). \<forall>e. snd (snd c) \<noteq> Throws e"
  shows "map (Some \<circ> fst) (invoked (emitSync body t d s)) = ordered s t"
    and "spreadable s t \<Longrightarrow> result (emitSync body t d s) = Returns Undefined"
proof -
  have "map (Some \<circ> fst) (invoked (emitSync body t d s)) = ordered s t \<and>
        (spreadable s t \<longrightarrow> result (emitSync body t d s) = Returns Undefined)"
  proof (cases "spreadable s t")
    case False
    then show ?thesis by (simp add: emission_not_spreadable)
  next
    case True
    then obtain ex log s' where
      r: "run nowait body (ordered s t) d (snd (snapshot t s)) = (ex, log, s')" and
      e: "emitSync body t d s =
         ((case ex of Raised e \<Rightarrow> (if isCancelled e then Returns e else Throws e)
           | _ \<Rightarrow> Returns Undefined), log, s')"
      by (rule emitSync_run)
    have "\<forall>c\<in>set log. nowait (snd (snd c)) = Finished"
      using assms(2) e by (simp add: nowait_Finished)
    then have c: "ex = Finished \<and> map (Some \<circ> fst) log = ordered s t"
      using run_complete [OF r assms(1)] by simp
    show ?thesis using c e by simp
  qed
  then show "map (Some \<circ> fst) (invoked (emitSync body t d s)) = ordered s t"
    and "spreadable s t \<Longrightarrow> result (emitSync body t d s) = Returns Undefined"
    by simp_all
qed

lemma emit_complete:
  assumes "None \<notin> set (ordered s t)"
    and "\<forall>c\<in>set (invoked (emit body t d s)). await (snd (snd c)) = Finished"
  shows "map (Some \<circ> fst) (invoked (emit body t d s)) = ordered s t"
    and "spreadable s t \<Longrightarrow> result (emit body t d s) = Resolves Undefined"
proof -
  have "map (Some \<circ> fst) (invoked (emit body t d s)) = ordered s t \<and>
        (spreadable s t \<longrightarrow> result (emit body t d s) = Resolves Undefined)"
  proof (cases "spreadable s t")
    case False
    then show ?thesis by (simp add: emission_not_spreadable)
  next
    case True
    then obtain ex log s' where
      r: "run await body (ordered s t) d (snd (snapshot t s)) = (ex, log, s')" and
      e: "emit body t d s =
         ((case ex of Finished \<Rightarrow> Resolves Undefined
           | Raised e \<Rightarrow> (if isCancelled e then Resolves e else Rejects e)
           | Hung \<Rightarrow> NeverSettles), log, s')"
      by (rule emit_run)
    have "\<forall>c\<in>set log. await (snd (snd c)) = Finished"
      using assms(2) e by simp
    then have c: "ex = Finished \<and> map (Some \<circ> fst) log = ordered s t"
      using run_complete [OF r assms(1)] by simp
    show ?thesis using c e by simp
  qed
  then show "map (Some \<circ> fst) (invoked (emit body t d s)) = ordered s t"
    and "spreadable s t \<Longrightarrow> result (emit body t d s) = Resolves Undefined"
    by simp_all
qed



section \<open>Payload chaining (C1)\<close>

text \<open>
  C1 says that once a listener returns a replacement payload, the listeners after it
  receive the replacement, and that an emission that is not cancelled carries the last
  replacement. The loops drop what a listener returns and pass the same \<^verbatim>\<open>data\<close> to
  every listener, and the result type of \<^verbatim>\<open>emit\<close> is \<^verbatim>\<open>Promise<Cancelled | undefined>\<close>.
  Counterexample to C1: on the README's example, function 0 returns the replacement
  \<open>(1, 0, 3)\<close> for the payload \<open>(1, 2, 3)\<close>; function 1 is still called with
  \<open>(1, 2, 3)\<close>, and both emissions give \<^verbatim>\<open>undefined\<close>.
\<close>

theorem C1_replacement_is_dropped_counterexample:
  "invoked (emitSync replacing ''move'' (1, 2, 3) two_listeners) =
     [(Fn 0, (1, 2, 3), Returns (Data (1, 0, 3))), (Fn 1, (1, 2, 3), Returns Undefined)] \<and>
   payload_of (invoked (emitSync replacing ''move'' (1, 2, 3) two_listeners) ! 1) \<noteq> (1, 0, 3) \<and>
   result (emitSync replacing ''move'' (1, 2, 3) two_listeners) = Returns Undefined \<and>
   result (emitSync replacing ''move'' (1, 2, 3) two_listeners) \<noteq> Returns (Data (1, 0, 3)) \<and>
   invoked (emit replacing ''move'' (1, 2, 3) two_listeners) =
     [(Fn 0, (1, 2, 3), Returns (Data (1, 0, 3))), (Fn 1, (1, 2, 3), Returns Undefined)] \<and>
   payload_of (invoked (emit replacing ''move'' (1, 2, 3) two_listeners) ! 1) \<noteq> (1, 0, 3) \<and>
   result (emit replacing ''move'' (1, 2, 3) two_listeners) = Resolves Undefined \<and>
   result (emit replacing ''move'' (1, 2, 3) two_listeners) \<noteq> Resolves (Data (1, 0, 3))"
  by (simp add: ev)

text \<open>
  C1 as amended: in every emission, synchronous or asynchronous, every listener that
  is invoked receives the payload the emission was called with, whatever the listeners
  before it returned; the result never carries a payload; and when the three buckets
  of the type can be spread (always, unless the type names a member of
  \<^verbatim>\<open>Object.prototype\<close>), the call-time sequence has no hole and no invoked listener
  throws (for \<^verbatim>\<open>emit\<close>: every awaited outcome is a plain value or a fulfilled promise),
  the result is \<^verbatim>\<open>undefined\<close>.
\<close>

theorem C1_payload_is_never_replaced:
  "(\<forall>c\<in>set (invoked (emitSync body t d s)). payload_of c = d) \<and>
   (\<forall>c\<in>set (invoked (emit body t d s)). payload_of c = d) \<and>
   result (emitSync body t d s) \<noteq> Returns (Data x) \<and>
   result (emit body t d s) \<noteq> Resolves (Data x) \<and>
   (spreadable s t \<and> None \<notin> set (ordered s t) \<and>
      (\<forall>c\<in>set (invoked (emitSync body t d s)). \<forall>e. outcome_of c \<noteq> Throws e) \<longrightarrow>
      result (emitSync body t d s) = Returns Undefined) \<and>
   (spreadable s t \<and> None \<notin> set (ordered s t) \<and>
      (\<forall>c\<in>set (invoked (emit body t d s)). await (outcome_of c) = Finished) \<longrightarrow>
      result (emit body t d s) = Resolves Undefined)"
  using emitSync_payload [of _ body t d s] emit_payload [of _ body t d s]
    emitSync_no_payload [of body t d s x] emit_no_payload [of body t d s x]
    emitSync_complete(2) [of s t body d] emit_complete(2) [of s t body d]
  by blast

text \<open>
  The amended C1 on the README's example: the buckets can be spread, there is no hole
  and no throw, both listeners receive \<open>(1, 2, 3)\<close> and the result is \<^verbatim>\<open>undefined\<close>.
\<close>

theorem C1_payload_is_never_replaced_witness:
  "spreadable two_listeners ''move'' \<and>
   ordered two_listeners ''move'' = [Some (Fn 0), Some (Fn 1)] \<and>
   invoked (emitSync replacing ''move'' (1, 2, 3) two_listeners) =
     [(Fn 0, (1, 2, 3), Returns (Data (1, 0, 3))), (Fn 1, (1, 2, 3), Returns Undefined)] \<and>
   invoked (emit replacing ''move'' (1, 2, 3) two_listeners) =
     [(Fn 0, (1, 2, 3), Returns (Data (1, 0, 3))), (Fn 1, (1, 2, 3), Returns Undefined)] \<and>
   result (emitSync replacing ''move'' (1, 2, 3) two_listeners) = Returns Undefined \<and>
   result (emit replacing ''move'' (1, 2, 3) two_listeners) = Resolves Undefined"
proof -
  have sp: "spreadable two_listeners ''move''"
    by (simp add: ev)
  have o: "ordered two_listeners ''move'' = [Some (Fn 0), Some (Fn 1)]"
    by (simp add: ev)
  have l: "invoked (emitSync replacing ''move'' (1, 2, 3) two_listeners) =
     [(Fn 0, (1, 2, 3), Returns (Data (1, 0, 3))), (Fn 1, (1, 2, 3), Returns Undefined)]"
    by (simp add: ev)
  have l': "invoked (emit replacing ''move'' (1, 2, 3) two_listeners) =
     [(Fn 0, (1, 2, 3), Returns (Data (1, 0, 3))), (Fn 1, (1, 2, 3), Returns Undefined)]"
    by (simp add: ev)
  have "result (emitSync replacing ''move'' (1, 2, 3) two_listeners) = Returns Undefined \<and>
        result (emit replacing ''move'' (1, 2, 3) two_listeners) = Resolves Undefined"
    using C1_payload_is_never_replaced
            [where body = replacing and t = "''move''" and d = "(1, 2, 3)" and s = two_listeners]
    by (simp add: sp o l l')
  then show ?thesis using sp o l l' by simp
qed

section \<open>Cancellation (C2, C8)\<close>

text \<open>
  C2 says that the result is the cancelled one exactly when some invoked listener
  returns a cancellation signal. The dispatcher looks at what is thrown, never at what
  is returned (\<^verbatim>\<open>@returns Cancelled if any listener threw Cancelled\<close>). Counterexample
  to C2: function 1 returns \<^verbatim>\<open>new Cancelled("stop")\<close>; the two listeners after it are
  invoked all the same and both emissions give \<^verbatim>\<open>undefined\<close>.
\<close>

theorem C2_returned_signal_is_ignored_counterexample:
  "invoked (emitSync cancelling_by_return ''woof'' 5 four_listeners) =
     [(Fn 0, 5, Returns Undefined), (Fn 1, 5, Returns (Cancelled (Some ''stop''))),
      (Fn 2, 5, Returns Undefined), (Fn 3, 5, Returns Undefined)] \<and>
   result (emitSync cancelling_by_return ''woof'' 5 four_listeners) = Returns Undefined \<and>
   result (emitSync cancelling_by_return ''woof'' 5 four_listeners) \<noteq>
     Returns (Cancelled (Some ''stop'')) \<and>
   invoked (emit cancelling_by_return ''woof'' 5 four_listeners) =
     [(Fn 0, 5, Returns Undefined), (Fn 1, 5, Returns (Cancelled (Some ''stop''))),
      (Fn 2, 5, Returns Undefined), (Fn 3, 5, Returns Undefined)] \<and>
   result (emit cancelling_by_return ''woof'' 5 four_listeners) = Resolves Undefined \<and>
   result (emit cancelling_by_return ''woof'' 5 four_listeners) \<noteq>
     Resolves (Cancelled (Some ''stop''))"
  by (simp add: ev)

text \<open>
  C2 as amended: the result of \<^verbatim>\<open>emitSync\<close> is the \<^verbatim>\<open>Cancelled\<close> with a given reason if
  and only if some invoked listener throws a \<^verbatim>\<open>Cancelled\<close> with that reason; the result
  of \<^verbatim>\<open>emit\<close> is that \<^verbatim>\<open>Cancelled\<close> if and only if some invoked listener throws it or
  returns a promise rejected with it. In both cases the call of that listener is the
  last call of the emission: no listener after it is invoked.
\<close>

theorem C2_cancelled_iff_thrown:
  "(result (emitSync body t d s) = Returns (Cancelled reason) \<longleftrightarrow>
      (\<exists>f. (f, d, Throws (Cancelled reason)) \<in> set (invoked (emitSync body t d s)))) \<and>
   (result (emit body t d s) = Resolves (Cancelled reason) \<longleftrightarrow>
      (\<exists>f r. (f, d, r) \<in> set (invoked (emit body t d s)) \<and> await r = Raised (Cancelled reason))) \<and>
   (\<forall>f. (f, d, Throws (Cancelled reason)) \<in> set (invoked (emitSync body t d s)) \<longrightarrow>
      last (invoked (emitSync body t d s)) = (f, d, Throws (Cancelled reason))) \<and>
   (\<forall>f r. (f, d, r) \<in> set (invoked (emit body t d s)) \<and> await r = Raised (Cancelled reason) \<longrightarrow>
      last (invoked (emit body t d s)) = (f, d, r))"
proof (intro conjI)
  show "result (emitSync body t d s) = Returns (Cancelled reason) \<longleftrightarrow>
      (\<exists>f. (f, d, Throws (Cancelled reason)) \<in> set (invoked (emitSync body t d s)))"
    using emitSync_Cancelled [of body t d s reason]
      emitSync_stop(1) [of _ d "Cancelled reason" body t d s]
    by auto
  show "result (emit body t d s) = Resolves (Cancelled reason) \<longleftrightarrow>
      (\<exists>f r. (f, d, r) \<in> set (invoked (emit body t d s)) \<and> await r = Raised (Cancelled reason))"
    using emit_Cancelled [of body t d s reason]
      emit_stop(1) [of _ d _ body t d s "Cancelled reason"]
    by auto
  show "\<forall>f. (f, d, Throws (Cancelled reason)) \<in> set (invoked (emitSync body t d s)) \<longrightarrow>
      last (invoked (emitSync body t d s)) = (f, d, Throws (Cancelled reason))"
    using emitSync_stop(2) [of _ d "Cancelled reason" body t d s] by blast
  show "\<forall>f r. (f, d, r) \<in> set (invoked (emit body t d s)) \<and> await r = Raised (Cancelled reason) \<longrightarrow>
      last (invoked (emit body t d s)) = (f, d, r)"
    using emit_stop(2) [of _ d _ body t d s "Cancelled reason"] by blast
qed

text \<open>
  The amended C2 on the four listeners: function 1 throws \<^verbatim>\<open>new Cancelled("stop")\<close>
  under \<^verbatim>\<open>emitSync\<close>, and returns a promise rejected with it under \<^verbatim>\<open>emit\<close>; functions 2
  and 3 are not invoked.
\<close>

theorem C2_cancelled_iff_thrown_witness:
  "invoked (emitSync cancelling_by_throw ''woof'' 5 four_listeners) =
     [(Fn 0, 5, Returns Undefined), (Fn 1, 5, Throws (Cancelled (Some ''stop'')))] \<and>
   result (emitSync cancelling_by_throw ''woof'' 5 four_listeners) =
     Returns (Cancelled (Some ''stop'')) \<and>
   invoked (emit rejecting ''woof'' 5 four_listeners) =
     [(Fn 0, 5, Returns Undefined),
      (Fn 1, 5, ReturnsPromise (Rejects (Cancelled (Some ''stop''))))] \<and>
   result (emit rejecting ''woof'' 5 four_listeners) = Resolves (Cancelled (Some ''stop''))"
proof -
  have l: "invoked (emitSync cancelling_by_throw ''woof'' 5 four_listeners) =
     [(Fn 0, 5, Returns Undefined), (Fn 1, 5, Throws (Cancelled (Some ''stop'')))]"
    by (simp add: ev)
  have l': "invoked (emit rejecting ''woof'' 5 four_listeners) =
     [(Fn 0, 5, Returns Undefined),
      (Fn 1, 5, ReturnsPromise (Rejects (Cancelled (Some ''stop''))))]"
    by (simp add: ev)
  have "\<exists>f. (f, 5, Throws (Cancelled (Some ''stop''))) \<in>
          set (invoked (emitSync cancelling_by_throw ''woof'' 5 four_listeners))"
    by (simp add: l)
  then have 1: "result (emitSync cancelling_by_throw ''woof'' 5 four_listeners) =
     Returns (Cancelled (Some ''stop''))"
    using C2_cancelled_iff_thrown
            [where body = cancelling_by_throw and t = "''woof''" and d = 5
               and s = four_listeners and reason = "Some ''stop''"]
    by blast
  have "(Fn 1, 5, ReturnsPromise (Rejects (Cancelled (Some ''stop'')))) \<in>
          set (invoked (emit rejecting ''woof'' 5 four_listeners)) \<and>
        await (ReturnsPromise (Rejects (Cancelled (Some ''stop'')))) =
          Raised (Cancelled (Some ''stop''))"
    by (simp add: l')
  then have "\<exists>f r. (f, 5, r) \<in> set (invoked (emit rejecting ''woof'' 5 four_listeners)) \<and>
          await r = Raised (Cancelled (Some ''stop''))"
    by blast
  then have 2: "result (emit rejecting ''woof'' 5 four_listeners) =
     Resolves (Cancelled (Some ''stop''))"
    using C2_cancelled_iff_thrown
            [where body = rejecting and t = "''woof''" and d = 5
               and s = four_listeners and reason = "Some ''stop''"]
    by blast
  show ?thesis using l l' 1 2 by simp
qed

text \<open>
  C8 says that a cancellation signal a listener produces is always caught and becomes
  the cancelled result, and that any other failure a listener body raises propagates to
  the caller and keeps the remaining listeners from being invoked. \<^verbatim>\<open>emitSync\<close> drops
  what a listener returns, a promise included
  (\<^verbatim>\<open>if any listener (synchronously) threw\<close>). Counterexample to C8: under \<^verbatim>\<open>emitSync\<close>,
  function 1 returns a promise rejected with \<^verbatim>\<open>new Cancelled("stop")\<close>, or one rejected
  with an error, or returns the \<^verbatim>\<open>Cancelled\<close> itself; each time the two listeners after
  it are invoked and the result is \<^verbatim>\<open>undefined\<close>: nothing is converted, nothing
  propagates.
\<close>

theorem C8_rejection_is_dropped_by_emitSync_counterexample:
  "invoked (emitSync rejecting ''woof'' 5 four_listeners) =
     [(Fn 0, 5, Returns Undefined),
      (Fn 1, 5, ReturnsPromise (Rejects (Cancelled (Some ''stop'')))),
      (Fn 2, 5, Returns Undefined), (Fn 3, 5, Returns Undefined)] \<and>
   result (emitSync rejecting ''woof'' 5 four_listeners) = Returns Undefined \<and>
   result (emitSync rejecting ''woof'' 5 four_listeners) \<noteq> Returns (Cancelled (Some ''stop'')) \<and>
   invoked (emitSync rejecting_error ''woof'' 5 four_listeners) =
     [(Fn 0, 5, Returns Undefined),
      (Fn 1, 5, ReturnsPromise (Rejects (Failure ''boom''))),
      (Fn 2, 5, Returns Undefined), (Fn 3, 5, Returns Undefined)] \<and>
   result (emitSync rejecting_error ''woof'' 5 four_listeners) = Returns Undefined \<and>
   result (emitSync rejecting_error ''woof'' 5 four_listeners) \<noteq> Throws (Failure ''boom'') \<and>
   length (invoked (emitSync cancelling_by_return ''woof'' 5 four_listeners)) = 4 \<and>
   result (emitSync cancelling_by_return ''woof'' 5 four_listeners) \<noteq>
     Returns (Cancelled (Some ''stop''))"
  by (simp add: ev)

text \<open>
  C8 as amended: a \<^verbatim>\<open>Cancelled\<close> that a call made by the dispatcher throws (for \<^verbatim>\<open>emit\<close>:
  throws, or returns a promise rejected with) is caught and becomes the value of the
  emission (returned by \<^verbatim>\<open>emitSync\<close>, the fulfilment of the promise of \<^verbatim>\<open>emit\<close>), never
  a throw or a rejection; anything else such a call throws (for \<^verbatim>\<open>emit\<close>: throws, or
  returns a promise rejected with) is thrown by \<^verbatim>\<open>emitSync\<close>, and rejects the promise of
  \<^verbatim>\<open>emit\<close>; in each case that call is the last call of the emission, so the remaining
  listeners are not invoked.
\<close>

theorem C8_cancelled_is_caught_failure_propagates:
  "((f, x, Throws e) \<in> set (invoked (emitSync body t d s)) \<longrightarrow>
      result (emitSync body t d s) = (if isCancelled e then Returns e else Throws e) \<and>
      last (invoked (emitSync body t d s)) = (f, x, Throws e)) \<and>
   ((f, x, r) \<in> set (invoked (emit body t d s)) \<and> await r = Raised e \<longrightarrow>
      result (emit body t d s) = (if isCancelled e then Resolves e else Rejects e) \<and>
      last (invoked (emit body t d s)) = (f, x, r))"
proof (intro conjI impI)
  assume m: "(f, x, Throws e) \<in> set (invoked (emitSync body t d s))"
  show "result (emitSync body t d s) = (if isCancelled e then Returns e else Throws e)"
    using emitSync_stop(1) [OF m] .
  show "last (invoked (emitSync body t d s)) = (f, x, Throws e)"
    using emitSync_stop(2) [OF m] .
next
  assume m: "(f, x, r) \<in> set (invoked (emit body t d s)) \<and> await r = Raised e"
  show "result (emit body t d s) = (if isCancelled e then Resolves e else Rejects e)"
    using emit_stop(1) [of f x r body t d s e] m by simp
  show "last (invoked (emit body t d s)) = (f, x, r)"
    using emit_stop(2) [of f x r body t d s e] m by simp
qed

text \<open>
  The amended C8 on the four listeners: a thrown \<^verbatim>\<open>Cancelled\<close> is returned, a thrown error is
  thrown again, a rejection with \<^verbatim>\<open>Cancelled\<close> fulfils the promise of \<^verbatim>\<open>emit\<close>, a thrown
  error rejects it.
\<close>

theorem C8_cancelled_is_caught_failure_propagates_witness:
  "result (emitSync cancelling_by_throw ''woof'' 5 four_listeners) =
     Returns (Cancelled (Some ''stop'')) \<and>
   result (emitSync failing ''woof'' 5 four_listeners) = Throws (Failure ''boom'') \<and>
   last (invoked (emitSync failing ''woof'' 5 four_listeners)) =
     (Fn 1, 5, Throws (Failure ''boom'')) \<and>
   result (emit rejecting ''woof'' 5 four_listeners) = Resolves (Cancelled (Some ''stop'')) \<and>
   result (emit failing ''woof'' 5 four_listeners) = Rejects (Failure ''boom'') \<and>
   last (invoked (emit failing ''woof'' 5 four_listeners)) =
     (Fn 1, 5, Throws (Failure ''boom''))"
proof -
  have a: "(Fn 1, 5, Throws (Cancelled (Some ''stop''))) \<in>
             set (invoked (emitSync cancelling_by_throw ''woof'' 5 four_listeners))"
    by (simp add: ev)
  have b: "(Fn 1, 5, Throws (Failure ''boom'')) \<in>
             set (invoked (emitSync failing ''woof'' 5 four_listeners))"
    by (simp add: ev)
  have c: "(Fn 1, 5, ReturnsPromise (Rejects (Cancelled (Some ''stop'')))) \<in>
             set (invoked (emit rejecting ''woof'' 5 four_listeners)) \<and>
           await (ReturnsPromise (Rejects (Cancelled (Some ''stop'')))) =
             Raised (Cancelled (Some ''stop''))"
    by (simp add: ev)
  have d: "(Fn 1, 5, Throws (Failure ''boom'')) \<in>
             set (invoked (emit failing ''woof'' 5 four_listeners)) \<and>
           await (Throws (Failure ''boom'')) = Raised (Failure ''boom'')"
    by (simp add: ev)
  show ?thesis
    using a b c d
      C8_cancelled_is_caught_failure_propagates
        [where body = cancelling_by_throw and t = "''woof''" and d = 5 and s = four_listeners
           and f = "Fn 1" and x = 5 and e = "Cancelled (Some ''stop'')"]
      C8_cancelled_is_caught_failure_propagates
        [where body = failing and t = "''woof''" and d = 5 and s = four_listeners
           and f = "Fn 1" and x = 5 and e = "Failure ''boom''"
           and r = "Throws (Failure ''boom'')"]
      C8_cancelled_is_caught_failure_propagates
        [where body = rejecting and t = "''woof''" and d = 5 and s = four_listeners
           and f = "Fn 1" and x = 5 and e = "Cancelled (Some ''stop'')"
           and r = "ReturnsPromise (Rejects (Cancelled (Some ''stop'')))"]
    by simp
qed

section \<open>Order of invocation and the snapshot (C4, C7, C6)\<close>



text \<open>
  C7: the sequence an emission runs over is the before, normal and after buckets as
  they are when \<^verbatim>\<open>emit\<close> or \<^verbatim>\<open>emitSync\<close> is called. Whatever the listener bodies do to the
  registry while the emission runs (a body is any function of the state, so it may
  register listeners at any point), the listeners invoked are, in order, an initial
  part of that call-time sequence, and all of it when it has no hole and no invoked
  listener throws (for \<^verbatim>\<open>emit\<close>: every awaited outcome is a plain value or a fulfilled
  promise): nothing registered meanwhile is invoked, nothing is skipped or reordered.
  (Where the three buckets cannot be spread, no array is built, \<open>ordered\<close> is empty and
  nothing is invoked.)
\<close>

theorem C7_emission_follows_snapshot:
  "map (Some \<circ> listener_of) (invoked (emitSync body t d s)) =
     take (length (invoked (emitSync body t d s))) (ordered s t) \<and>
   map (Some \<circ> listener_of) (invoked (emit body t d s)) =
     take (length (invoked (emit body t d s))) (ordered s t) \<and>
   (None \<notin> set (ordered s t) \<and>
      (\<forall>c\<in>set (invoked (emitSync body t d s)). \<forall>e. outcome_of c \<noteq> Throws e) \<longrightarrow>
      map (Some \<circ> listener_of) (invoked (emitSync body t d s)) = ordered s t) \<and>
   (None \<notin> set (ordered s t) \<and>
      (\<forall>c\<in>set (invoked (emit body t d s)). await (outcome_of c) = Finished) \<longrightarrow>
      map (Some \<circ> listener_of) (invoked (emit body t d s)) = ordered s t)"
  using emitSync_order [of body t d s] emit_order [of body t d s]
    emitSync_complete(1) [of s t body d] emit_complete(1) [of s t body d]
  by blast

text \<open>
  C7 on two listeners of which the first registers a third, at \<^verbatim>\<open>before\<close>, while the
  emission runs: the emission invokes the two, in order; the third is in the registry
  afterwards.
\<close>

theorem C7_emission_follows_snapshot_witness:
  "ordered two_listeners ''move'' = [Some (Fn 0), Some (Fn 1)] \<and>
   ordered (final (emitSync registering ''move'' 7 two_listeners)) ''move'' =
     [Some (Fn 9), Some (Fn 0), Some (Fn 1)] \<and>
   map (Some \<circ> listener_of) (invoked (emitSync registering ''move'' 7 two_listeners)) =
     [Some (Fn 0), Some (Fn 1)] \<and>
   map (Some \<circ> listener_of) (invoked (emit registering ''move'' 7 two_listeners)) =
     [Some (Fn 0), Some (Fn 1)]"
proof -
  have o: "ordered two_listeners ''move'' = [Some (Fn 0), Some (Fn 1)]"
    by (simp add: ev)
  have n: "ordered (final (emitSync registering ''move'' 7 two_listeners)) ''move'' =
     [Some (Fn 9), Some (Fn 0), Some (Fn 1)]"
    by (simp add: ev)
  have a: "\<forall>c\<in>set (invoked (emitSync registering ''move'' 7 two_listeners)).
             \<forall>e. outcome_of c \<noteq> Throws e"
    by (simp add: ev)
  have b: "\<forall>c\<in>set (invoked (emit registering ''move'' 7 two_listeners)).
             await (outcome_of c) = Finished"
    by (simp add: ev)
  have h: "None \<notin> set (ordered two_listeners ''move'')"
    by (simp add: o)
  have "map (Some \<circ> fst) (invoked (emitSync registering ''move'' 7 two_listeners)) =
          ordered two_listeners ''move'' \<and>
        map (Some \<circ> fst) (invoked (emit registering ''move'' 7 two_listeners)) =
          ordered two_listeners ''move''"
    using C7_emission_follows_snapshot
            [where body = registering and t = "''move''" and d = 7 and s = two_listeners]
      a b h
    by blast
  then show ?thesis using o n by simp
qed




section \<open>What an emission leaves in the registry (C10)\<close>



section \<open>Cleanup functions (C5, C9, C3)\<close>

text \<open>
  \<^verbatim>\<open>on\<close> keeps the value of \<^verbatim>\<open>push\<close>, the new length, which is the index after the one
  the listener was stored at; the cleanup function deletes at that index. Called
  right after the registration it changes nothing in any bucket (lemma
  \<open>own_handle_keeps_listener\<close>), and two calls in a row do what one does (lemma
  \<open>off_twice\<close>).

  C5 says that the cleanup function removes exactly the listener it was returned for,
  leaves an independently registered listener alone, and that a listener removed
  before an emission is not invoked in it. In the code, after
  \<^verbatim>\<open>offA = on(["move"], f0); on(["move"], f1); offA()\<close> the bucket still holds \<open>f0\<close>,
  and the slot of \<open>f1\<close> is a hole; the next emission invokes \<open>f0\<close> and then throws a
  \<^verbatim>\<open>TypeError\<close> at the hole.
\<close>

theorem C5_handle_removes_next_listener:
  "fst (on (''move'', None) (Fn 0) (new_EventEmitter (0::nat))) = Inr (Cleanup ''move'' normal 1) \<and>
   listeners two_listeners normal ''move'' = Some [Some (Fn 0), Some (Fn 1)] \<and>
   listeners (snd (off (Cleanup ''move'' normal 1) two_listeners)) normal ''move'' =
     Some [Some (Fn 0), None] \<and>
   invoked (emitSync counting ''move'' 7 (snd (off (Cleanup ''move'' normal 1) two_listeners))) =
     [(Fn 0, 7, Returns Undefined)] \<and>
   result (emitSync counting ''move'' 7 (snd (off (Cleanup ''move'' normal 1) two_listeners))) =
     Throws (Failure ''TypeError: listener is not a function'')"
  by (simp add: ev)

text \<open>
  C9 says that calling a cleanup function again, any time after its first call, changes
  nothing in the registry and raises nothing. In the code, after
  \<^verbatim>\<open>offA = on(["move"], f0); offA(); on(["move"], f1)\<close> the bucket holds \<open>f0\<close> and
  \<open>f1\<close>, and the second call \<^verbatim>\<open>offA()\<close> deletes \<open>f1\<close>.
\<close>

theorem C9_second_call_removes_later_listener:
  "fst (on (''move'', None) (Fn 0) (new_EventEmitter (0::nat))) = Inr (Cleanup ''move'' normal 1) \<and>
   listeners (snd (off (Cleanup ''move'' normal 1)
       (snd (on (''move'', None) (Fn 0) (new_EventEmitter (0::nat)))))) normal ''move'' =
     Some [Some (Fn 0)] \<and>
   listeners (snd (on (''move'', None) (Fn 1) (snd (off (Cleanup ''move'' normal 1)
       (snd (on (''move'', None) (Fn 0) (new_EventEmitter (0::nat)))))))) normal ''move'' =
     Some [Some (Fn 0), Some (Fn 1)] \<and>
   listeners (snd (off (Cleanup ''move'' normal 1)
       (snd (on (''move'', None) (Fn 1) (snd (off (Cleanup ''move'' normal 1)
       (snd (on (''move'', None) (Fn 0) (new_EventEmitter (0::nat)))))))))) normal ''move'' =
     Some [Some (Fn 0), None]"
  by (simp add: ev)

text \<open>
  C3 says that a listener registered with \<^verbatim>\<open>once\<close> is invoked at most once over any
  number of emissions, and is no longer in the registry after its first invocation.
  In the code the wrapper calls the cleanup function of its own registration, which
  deletes at the index after the wrapper's: after \<^verbatim>\<open>once(["woof"], f0)\<close>, a first
  emission invokes the wrapper (and through it \<open>f0\<close>), the wrapper is still in the
  bucket afterwards, and a second emission invokes it again: \<open>f0\<close> has run twice.
\<close>

theorem C3_once_listener_runs_again:
  "fst (once (''woof'', None) (Fn 0) (new_EventEmitter (0::nat))) = Inr (Cleanup ''woof'' normal 1) \<and>
   listeners once_listener normal ''woof'' =
     Some [Some (OnceWrapper (Cleanup ''woof'' normal 1) (Fn 0))] \<and>
   invoked (emitSync counting ''woof'' 1 once_listener) =
     [(OnceWrapper (Cleanup ''woof'' normal 1) (Fn 0), 1, Returns Undefined)] \<and>
   listeners (final (emitSync counting ''woof'' 1 once_listener)) normal ''woof'' =
     Some [Some (OnceWrapper (Cleanup ''woof'' normal 1) (Fn 0))] \<and>
   invoked (emitSync counting ''woof'' 2 (final (emitSync counting ''woof'' 1 once_listener))) =
     [(OnceWrapper (Cleanup ''woof'' normal 1) (Fn 0), 2, Returns Undefined)] \<and>
   world (final (emitSync counting ''woof'' 2 (final (emitSync counting ''woof'' 1 once_listener)))) = 2"
  by (simp add: ev)


end
